theory Spec2Isabelle
  imports Main
begin

section \<open>JSON values as the page receives them\<close>

text \<open>
  The analysis result is whatever \<^verbatim>\<open>response.json()\<close> returns: null, a boolean, a number,
  a string, an array, or an object. Scalars are kept in a type of their own because the
  flat mapping built by \<^verbatim>\<open>flattenObject\<close> only ever stores scalars.

  Numbers are IEEE doubles in the source. Their textual form, finiteness and truthiness
  are primitives of the host, so the number type is a parameter \<open>'n\<close> and the three
  primitives are passed in a record.

  An object is the list of its own enumerable properties in the order in which the host
  enumerates them (\<^verbatim>\<open>for..in\<close>, \<^verbatim>\<open>Object.keys\<close>, \<^verbatim>\<open>Object.entries\<close>, spread and
  \<^verbatim>\<open>JSON.stringify\<close> all use this order).
\<close>

datatype 'n prim = JNull | JBool bool | JNum 'n | JStr string

datatype 'n json =
    JScalar "'n prim"
  | JArray "'n json list"
  | JObject "(string \<times> 'n json) list"

record 'n host =
  numToString :: "'n \<Rightarrow> string"
  numFinite :: "'n \<Rightarrow> bool"
  numTruthy :: "'n \<Rightarrow> bool"

datatype error = TypeError

subsection \<open>Characters that cannot be typed inside a string literal\<close>

definition dquote :: char where
  "dquote = CHR 0x22"

definition backslash :: char where
  "backslash = CHR 0x5C"

definition newline :: char where
  "newline = CHR 0x0A"

subsection \<open>Decimal numerals\<close>

definition digitChar :: "nat \<Rightarrow> char" where
  "digitChar d = ''0123456789abcdef'' ! d"

fun decimal :: "nat \<Rightarrow> string" where
  "decimal n = (if n < 10 then [digitChar n] else decimal (n div 10) @ [digitChar (n mod 10)])"

declare decimal.simps [simp del]

fun position :: "'a \<Rightarrow> 'a list \<Rightarrow> nat option" where
  "position x [] = None"
| "position x (y # ys) = (if x = y then Some 0 else map_option Suc (position x ys))"

definition digitValue :: "char \<Rightarrow> nat option" where
  "digitValue c = position c ''0123456789''"

fun digitsValue :: "nat \<Rightarrow> string \<Rightarrow> nat option" where
  "digitsValue acc [] = Some acc"
| "digitsValue acc (c # cs) =
     (case digitValue c of None \<Rightarrow> None | Some d \<Rightarrow> digitsValue (10 * acc + d) cs)"

text \<open>
  A property key is an array index when it is the canonical decimal numeral of an integer
  from 0 to 2^32 - 2: digits only, no leading zero.
\<close>

definition arrayIndex :: "string \<Rightarrow> nat option" where
  "arrayIndex k =
     (case k of
        [] \<Rightarrow> None
      | c # cs \<Rightarrow>
          if c = CHR ''0'' \<and> cs \<noteq> [] then None
          else (case digitsValue 0 k of
                  None \<Rightarrow> None
                | Some n \<Rightarrow> if n < 4294967295 then Some n else None))"

subsection \<open>The host's conversions\<close>

text \<open>\<^verbatim>\<open>typeof v\<close>; note \<^verbatim>\<open>typeof null === "object"\<close>.\<close>

fun typeof :: "'n json \<Rightarrow> string" where
  "typeof (JScalar JNull) = ''object''"
| "typeof (JScalar (JBool b)) = ''boolean''"
| "typeof (JScalar (JNum n)) = ''number''"
| "typeof (JScalar (JStr s)) = ''string''"
| "typeof (JArray xs) = ''object''"
| "typeof (JObject kvs) = ''object''"

text \<open>\<^verbatim>\<open>String(v)\<close> on a scalar.\<close>

fun ToString :: "'n host \<Rightarrow> 'n prim \<Rightarrow> string" where
  "ToString N JNull = ''null''"
| "ToString N (JBool b) = (if b then ''true'' else ''false'')"
| "ToString N (JNum n) = numToString N n"
| "ToString N (JStr s) = s"

text \<open>Truthiness (\<^verbatim>\<open>!v\<close>, \<^verbatim>\<open>if (v)\<close>): arrays and objects are always truthy.\<close>

fun truthy :: "'n host \<Rightarrow> 'n json \<Rightarrow> bool" where
  "truthy N (JScalar JNull) = False"
| "truthy N (JScalar (JBool b)) = b"
| "truthy N (JScalar (JNum n)) = numTruthy N n"
| "truthy N (JScalar (JStr s)) = (s \<noteq> [])"
| "truthy N (JArray xs) = True"
| "truthy N (JObject kvs) = True"

text \<open>
  \<^verbatim>\<open>Array.prototype.join\<close>: the result starts empty, the separator is appended before every
  element but the first, and a null element contributes the empty string.
\<close>

fun joinFrom :: "string \<Rightarrow> string \<Rightarrow> string list \<Rightarrow> string" where
  "joinFrom sep r [] = r"
| "joinFrom sep r (x # xs) = joinFrom sep (r @ sep @ x) xs"

definition join :: "string \<Rightarrow> string list \<Rightarrow> string" where
  "join sep xs = (case xs of [] \<Rightarrow> [] | x # rest \<Rightarrow> joinFrom sep x rest)"

definition elementText :: "'n host \<Rightarrow> 'n prim \<Rightarrow> string" where
  "elementText N p = (if p = JNull then [] else ToString N p)"

definition joinArray :: "'n host \<Rightarrow> string \<Rightarrow> 'n prim list \<Rightarrow> string" where
  "joinArray N sep xs = join sep (map (elementText N) xs)"

subsection \<open>JSON.stringify without indentation\<close>

definition hex4 :: "nat \<Rightarrow> string" where
  "hex4 n = [CHR ''0'', CHR ''0'', digitChar (n div 16), digitChar (n mod 16)]"

definition quoteChar :: "char \<Rightarrow> string" where
  "quoteChar c =
     (if c = dquote then [backslash, dquote]
      else if c = backslash then [backslash, backslash]
      else if c = CHR 0x08 then [backslash, CHR ''b'']
      else if c = CHR 0x09 then [backslash, CHR ''t'']
      else if c = CHR 0x0A then [backslash, CHR ''n'']
      else if c = CHR 0x0C then [backslash, CHR ''f'']
      else if c = CHR 0x0D then [backslash, CHR ''r'']
      else if (of_char c :: nat) < 32 then [backslash, CHR ''u''] @ hex4 (of_char c)
      else [c])"

definition quoteJSON :: "string \<Rightarrow> string" where
  "quoteJSON s = [dquote] @ concat (map quoteChar s) @ [dquote]"

fun stringifyPrim :: "'n host \<Rightarrow> 'n prim \<Rightarrow> string" where
  "stringifyPrim N JNull = ''null''"
| "stringifyPrim N (JBool b) = (if b then ''true'' else ''false'')"
| "stringifyPrim N (JNum n) = (if numFinite N n then numToString N n else ''null'')"
| "stringifyPrim N (JStr s) = quoteJSON s"

fun stringify :: "'n host \<Rightarrow> 'n json \<Rightarrow> string"
  and stringifyItems :: "'n host \<Rightarrow> 'n json list \<Rightarrow> string list"
  and stringifyMembers :: "'n host \<Rightarrow> (string \<times> 'n json) list \<Rightarrow> string list" where
  "stringify N (JScalar p) = stringifyPrim N p"
| "stringify N (JArray xs) = ''['' @ join '','' (stringifyItems N xs) @ '']''"
| "stringify N (JObject kvs) = ''{'' @ join '','' (stringifyMembers N kvs) @ ''}''"
| "stringifyItems N [] = []"
| "stringifyItems N (x # xs) = stringify N x # stringifyItems N xs"
| "stringifyMembers N [] = []"
| "stringifyMembers N ((k, v) # kvs) = (quoteJSON k @ '':'' @ stringify N v) # stringifyMembers N kvs"

section \<open>Ordinary objects\<close>

text \<open>
  The own properties of an object are enumerated with the array-index keys first, in
  ascending numeric order, and the other string keys after them in the order of their
  creation. Writing to an existing key keeps its place.
\<close>

definition hasOwn :: "(string \<times> 'v) list \<Rightarrow> string \<Rightarrow> bool" where
  "hasOwn ps k = (k \<in> set (map fst ps))"

definition indexBelow :: "nat \<Rightarrow> string \<Rightarrow> bool" where
  "indexBelow i k = (case arrayIndex k of None \<Rightarrow> False | Some j \<Rightarrow> j < i)"

definition defineOwn :: "(string \<times> 'v) list \<Rightarrow> string \<Rightarrow> 'v \<Rightarrow> (string \<times> 'v) list" where
  "defineOwn ps k v =
     (if hasOwn ps k then map (\<lambda>kv. if fst kv = k then (k, v) else kv) ps
      else (case arrayIndex k of
              None \<Rightarrow> ps @ [(k, v)]
            | Some i \<Rightarrow> takeWhile (\<lambda>kv. indexBelow i (fst kv)) ps @ [(k, v)]
                        @ dropWhile (\<lambda>kv. indexBelow i (fst kv)) ps))"

definition deleteOwn :: "(string \<times> 'v) list \<Rightarrow> string \<Rightarrow> (string \<times> 'v) list" where
  "deleteOwn ps k = filter (\<lambda>kv. fst kv \<noteq> k) ps"

text \<open>
  The accumulator \<^verbatim>\<open>res\<close> of \<^verbatim>\<open>flattenObject\<close> starts as the literal \<^verbatim>\<open>{}\<close>, whose prototype
  is \<^verbatim>\<open>Object.prototype\<close>. The assignment \<^verbatim>\<open>res[k] = v\<close> creates or overwrites an own property,
  except for the key \<^verbatim>\<open>__proto__\<close>: as long as the object inherits that accessor and has no own
  property of the name, the assignment calls the inherited setter, which ignores every
  scalar but null and on null removes the prototype. Only scalars are ever assigned.
\<close>

record 'n object =
  entries :: "(string \<times> 'n prim) list"
  nullProto :: bool

definition newObject :: "'n object" where
  "newObject = \<lparr>entries = [], nullProto = False\<rparr>"

definition assign :: "'n object \<Rightarrow> string \<Rightarrow> 'n prim \<Rightarrow> 'n object" where
  "assign res k v =
     (if k = ''__proto__'' \<and> \<not> hasOwn (entries res) k \<and> \<not> nullProto res
      then (if v = JNull then res\<lparr>nullProto := True\<rparr> else res)
      else res\<lparr>entries := defineOwn (entries res) k v\<rparr>)"

definition keys :: "'n object \<Rightarrow> string list" where
  "keys res = map fst (entries res)"

definition values_of :: "'n object \<Rightarrow> 'n prim list" where
  "values_of res = map snd (entries res)"

section \<open>flattenObject and convertToCSV\<close>

text \<open>
  What \<^verbatim>\<open>for (const key in obj)\<close> visits, with \<^verbatim>\<open>obj[key]\<close>: the own properties of an object,
  the elements of an array under their indices, the characters of a string under their
  indices, and nothing for the other scalars.
\<close>

fun ownEntries :: "'n json \<Rightarrow> (string \<times> 'n json) list" where
  "ownEntries (JObject kvs) = kvs"
| "ownEntries (JArray xs) = zip (map decimal [0..<length xs]) xs"
| "ownEntries (JScalar (JStr s)) =
     zip (map decimal [0..<length s]) (map (\<lambda>c. JScalar (JStr [c])) s)"
| "ownEntries (JScalar p) = []"

text \<open>
  \<^verbatim>\<open>obj.hasOwnProperty(key)\<close>. The method is looked up on \<^verbatim>\<open>obj\<close> first: an object with an own
  property named \<^verbatim>\<open>hasOwnProperty\<close> shadows the inherited method with a JSON value, which
  is not callable, and the call throws.
\<close>

definition hasOwnProperty :: "'n json \<Rightarrow> string \<Rightarrow> error + bool" where
  "hasOwnProperty obj key =
     (case obj of
        JObject kvs \<Rightarrow>
          if hasOwn kvs ''hasOwnProperty'' then Inl TypeError else Inr (hasOwn kvs key)
      | JArray xs \<Rightarrow> Inr (hasOwn (ownEntries obj) key \<or> key = ''length'')
      | JScalar p \<Rightarrow>
          (case p of
             JNull \<Rightarrow> Inl TypeError
           | JStr s \<Rightarrow> Inr (hasOwn (ownEntries obj) key \<or> key = ''length'')
           | _ \<Rightarrow> Inr False))"

text \<open>
  The callback of the \<^verbatim>\<open>map\<close> on line 115:
  \<^verbatim>\<open>typeof item === 'object' ? JSON.stringify(item) : item\<close>.
\<close>

definition collapseItem :: "'n host \<Rightarrow> 'n json \<Rightarrow> 'n prim" where
  "collapseItem N item =
     (if typeof item = ''object'' then JStr (stringify N item)
      else (case item of JScalar p \<Rightarrow> p | _ \<Rightarrow> JStr (stringify N item)))"

definition childKey :: "string \<Rightarrow> string \<Rightarrow> string" where
  "childKey prefix key = (if prefix \<noteq> [] then prefix @ ''.'' @ key else key)"

text \<open>
  The loop of \<^verbatim>\<open>flattenObject\<close> over the keys still to visit. The three branches are those
  of lines 110, 112 and 116: a non-null, non-array object is entered with the new key as
  prefix, an array is joined into one string, anything else is stored as it is. The
  accumulator is mutated in place in the source and passed along here.
\<close>

function flattenLoop ::
  "'n host \<Rightarrow> 'n json \<Rightarrow> (string \<times> 'n json) list \<Rightarrow> string \<Rightarrow> 'n object \<Rightarrow> error + 'n object" where
  "flattenLoop N obj [] prefix res = Inr res"
| "flattenLoop N obj ((key, val) # rest) prefix res =
     (case hasOwnProperty obj key of
        Inl e \<Rightarrow> Inl e
      | Inr own \<Rightarrow>
          if \<not> own then flattenLoop N obj rest prefix res
          else (case val of
                  JObject kvs \<Rightarrow>
                    (case flattenLoop N val kvs (childKey prefix key) res of
                       Inl e \<Rightarrow> Inl e
                     | Inr res' \<Rightarrow> flattenLoop N obj rest prefix res')
                | JArray xs \<Rightarrow>
                    flattenLoop N obj rest prefix
                      (assign res (childKey prefix key)
                         (JStr (joinArray N ''; '' (map (collapseItem N) xs))))
                | JScalar p \<Rightarrow>
                    flattenLoop N obj rest prefix (assign res (childKey prefix key) p)))"
  by pat_completeness auto
termination
  by (relation "measure (\<lambda>(N, obj, es, prefix, res). size_list (size_prod (\<lambda>k. 0) size) es)") auto

declare flattenLoop.simps [simp del]

definition flattenObject ::
  "'n host \<Rightarrow> 'n json \<Rightarrow> string \<Rightarrow> 'n object \<Rightarrow> error + 'n object" where
  "flattenObject N obj prefix res = flattenLoop N obj (ownEntries obj) prefix res"

text \<open>\<^verbatim>\<open>strValue.replace(/"/g, '""')\<close>.\<close>

fun doubleQuotes :: "string \<Rightarrow> string" where
  "doubleQuotes [] = []"
| "doubleQuotes (c # cs) = (if c = dquote then [dquote, dquote] else [c]) @ doubleQuotes cs"

definition csvField :: "'n host \<Rightarrow> 'n prim \<Rightarrow> string" where
  "csvField N v = (let strValue = ToString N v in [dquote] @ doubleQuotes strValue @ [dquote])"

text \<open>Lines 126 to 132 of \<^verbatim>\<open>convertToCSV\<close>, on the flat mapping.\<close>

definition csvOfFlat :: "'n host \<Rightarrow> 'n object \<Rightarrow> string" where
  "csvOfFlat N flatData =
     (let headers = join '','' (keys flatData);
          vals = join '','' (map (csvField N) (values_of flatData))
      in headers @ [newline] @ vals)"

definition convertToCSV :: "'n host \<Rightarrow> 'n json \<Rightarrow> error + string" where
  "convertToCSV N jsonData =
     (case flattenObject N jsonData [] newObject of
        Inl e \<Rightarrow> Inl e
      | Inr flatData \<Rightarrow> Inr (csvOfFlat N flatData))"

section \<open>renderValue and ResultsTable\<close>

text \<open>
  What \<^verbatim>\<open>renderValue\<close> returns: a bare string, the muted
  \<^verbatim>\<open><span className="italic text-gray-500">\<close> around a text, a \<^verbatim>\<open><ul>\<close> with one \<^verbatim>\<open><li>\<close> per
  element, or a \<^verbatim>\<open><table>\<close> with one row per property (label cell, value cell). Style
  classes are left out.
\<close>

datatype markup =
    Text string
  | Span string
  | Ul "markup list"
  | TableOf "(string \<times> markup) list"

text \<open>\<^verbatim>\<open>key.replace(/_/g, ' ')\<close>.\<close>

definition humanize :: "string \<Rightarrow> string" where
  "humanize key = map (\<lambda>c. if c = CHR ''_'' then CHR '' '' else c) key"

fun renderValue :: "'n host \<Rightarrow> 'n json \<Rightarrow> markup"
  and renderItems :: "'n host \<Rightarrow> 'n json list \<Rightarrow> markup list"
  and renderRows :: "'n host \<Rightarrow> (string \<times> 'n json) list \<Rightarrow> (string \<times> markup) list" where
  "renderValue N (JArray xs) = Ul (renderItems N xs)"
| "renderValue N (JObject kvs) = TableOf (renderRows N kvs)"
| "renderValue N (JScalar JNull) = Span ''N/A''"
| "renderValue N (JScalar (JBool b)) = Text (if b then ''Yes'' else ''No'')"
| "renderValue N (JScalar p) = Text (ToString N p)"
| "renderItems N [] = []"
| "renderItems N (item # xs) = renderValue N item # renderItems N xs"
| "renderRows N [] = []"
| "renderRows N ((key, val) # kvs) = (humanize key, renderValue N val) # renderRows N kvs"

text \<open>
  \<^verbatim>\<open>{ ...data }\<close>: a fresh object on which every own enumerable property of \<^verbatim>\<open>data\<close> is
  defined in turn.
\<close>

definition spread :: "'n json \<Rightarrow> (string \<times> 'n json) list" where
  "spread data = foldl (\<lambda>target kv. defineOwn target (fst kv) (snd kv)) [] (ownEntries data)"

text \<open>
  The component returns either the paragraph \<^verbatim>\<open>No data to display.\<close> or the two-column
  table with one row per property of \<^verbatim>\<open>displayData\<close>. The prop \<^verbatim>\<open>data\<close> is typed \<^verbatim>\<open>any\<close>;
  \<open>None\<close> stands for \<^verbatim>\<open>undefined\<close>. A property that is absent reads as \<^verbatim>\<open>undefined\<close>, which
  is falsy.
\<close>

datatype page = NoData | Results "(string \<times> markup) list"

definition documentsTruthy :: "'n host \<Rightarrow> (string \<times> 'n json) list \<Rightarrow> bool" where
  "documentsTruthy N displayData =
     (case map_of displayData ''_documents'' of None \<Rightarrow> False | Some v \<Rightarrow> truthy N v)"

definition ResultsTable :: "'n host \<Rightarrow> 'n json option \<Rightarrow> page" where
  "ResultsTable N data =
     (case data of
        None \<Rightarrow> NoData
      | Some d \<Rightarrow>
          if \<not> truthy N d then NoData
          else (let displayData = spread d;
                    displayData' = (if documentsTruthy N displayData
                                    then deleteOwn displayData ''_documents''
                                    else displayData)
                in Results (renderRows N displayData')))"

section \<open>The specification's vocabulary\<close>

text \<open>
  The DisplayNode of the specification: Scalar, List and Table. The muted span and the bare
  string are both a Scalar carrying the text.
\<close>

datatype DisplayNode =
    Scalar string
  | ListNode "DisplayNode list"
  | TableNode "(string \<times> DisplayNode) list"

fun displayNode :: "markup \<Rightarrow> DisplayNode"
  and displayNodes :: "markup list \<Rightarrow> DisplayNode list"
  and displayRows :: "(string \<times> markup) list \<Rightarrow> (string \<times> DisplayNode) list" where
  "displayNode (Text s) = Scalar s"
| "displayNode (Span s) = Scalar s"
| "displayNode (Ul ms) = ListNode (displayNodes ms)"
| "displayNode (TableOf rows) = TableNode (displayRows rows)"
| "displayNodes [] = []"
| "displayNodes (m # ms) = displayNode m # displayNodes ms"
| "displayRows [] = []"
| "displayRows ((label, m) # rows) = (label, displayNode m) # displayRows rows"

text \<open>
  The array rule of the specification: the items joined with \<^verbatim>\<open>"; "\<close>, a scalar item
  stringified directly, an object or nested array as compact JSON text.
\<close>

definition itemText :: "'n host \<Rightarrow> 'n json \<Rightarrow> string" where
  "itemText N item = (case item of JScalar p \<Rightarrow> ToString N p | _ \<Rightarrow> stringify N item)"

fun joinedWith :: "string \<Rightarrow> string list \<Rightarrow> string" where
  "joinedWith sep [] = []"
| "joinedWith sep [x] = x"
| "joinedWith sep (x # y # ys) = x @ sep @ joinedWith sep (y # ys)"

definition arrayCell :: "'n host \<Rightarrow> 'n json list \<Rightarrow> string" where
  "arrayCell N xs = joinedWith ''; '' (map (itemText N) xs)"

text \<open>
  The traversal of the specification: for each key in order, the child path is composed
  from the prefix; a non-array object is entered under the child path and contributes
  only what its own keys contribute; an array contributes one entry; a scalar
  contributes one entry.
\<close>

function depthFirst ::
  "'n host \<Rightarrow> string \<Rightarrow> (string \<times> 'n json) list \<Rightarrow> (string \<times> 'n prim) list" where
  "depthFirst N prefix [] = []"
| "depthFirst N prefix ((key, val) # rest) =
     (case val of
        JObject kvs \<Rightarrow> depthFirst N (childKey prefix key) kvs
      | JArray xs \<Rightarrow> [(childKey prefix key, JStr (arrayCell N xs))]
      | JScalar p \<Rightarrow> [(childKey prefix key, p)])
     @ depthFirst N prefix rest"
  by pat_completeness auto
termination
  by (relation "measure (\<lambda>(N, prefix, es). size_list (size_prod (\<lambda>k. 0) size) es)") auto

text \<open>
  The leaves and arrays that the traversal reaches, each with its composed path and with
  the value as it stands in the input.
\<close>

function visited :: "string \<Rightarrow> (string \<times> 'n json) list \<Rightarrow> (string \<times> 'n json) list" where
  "visited prefix [] = []"
| "visited prefix ((key, val) # rest) =
     (case val of
        JObject kvs \<Rightarrow> visited (childKey prefix key) kvs
      | JArray xs \<Rightarrow> [(childKey prefix key, val)]
      | JScalar p \<Rightarrow> [(childKey prefix key, val)])
     @ visited prefix rest"
  by pat_completeness auto
termination
  by (relation "measure (\<lambda>(prefix, es). size_list (size_prod (\<lambda>k. 0) size) es)") auto

text \<open>
  Keys are distinct at each level of an object. Plain keys are moreover non-empty and free
  of dots.
\<close>

fun distinctKeys :: "'n json \<Rightarrow> bool"
  and distinctKeysProps :: "(string \<times> 'n json) list \<Rightarrow> bool" where
  "distinctKeys (JObject kvs) = (distinct (map fst kvs) \<and> distinctKeysProps kvs)"
| "distinctKeys (JArray xs) = True"
| "distinctKeys (JScalar p) = True"
| "distinctKeysProps [] = True"
| "distinctKeysProps ((key, val) # kvs) = (distinctKeys val \<and> distinctKeysProps kvs)"

fun plainKeys :: "'n json \<Rightarrow> bool"
  and plainKeysProps :: "(string \<times> 'n json) list \<Rightarrow> bool" where
  "plainKeys (JObject kvs) = (distinct (map fst kvs) \<and> plainKeysProps kvs)"
| "plainKeys (JArray xs) = True"
| "plainKeys (JScalar p) = True"
| "plainKeysProps [] = True"
| "plainKeysProps ((key, val) # kvs) =
     (key \<noteq> [] \<and> CHR ''.'' \<notin> set key \<and> plainKeys val \<and> plainKeysProps kvs)"

text \<open>The assignments \<^verbatim>\<open>res[path] = value\<close>, one after the other.\<close>

definition assignAll :: "'n object \<Rightarrow> (string \<times> 'n prim) list \<Rightarrow> 'n object" where
  "assignAll res es = foldl (\<lambda>r e. assign r (fst e) (snd e)) res es"

text \<open>
  The traversal completes when \<^verbatim>\<open>hasOwnProperty\<close> can be called on every object it enters:
  none of them has an own property of that name. Arrays are not entered.
\<close>

fun traversable :: "'n json \<Rightarrow> bool"
  and traversableProps :: "(string \<times> 'n json) list \<Rightarrow> bool" where
  "traversable (JObject kvs) = (\<not> hasOwn kvs ''hasOwnProperty'' \<and> traversableProps kvs)"
| "traversable (JArray xs) = True"
| "traversable (JScalar p) = True"
| "traversableProps [] = True"
| "traversableProps ((key, val) # kvs) = (traversable val \<and> traversableProps kvs)"

text \<open>
  A list of keys is in own-property order when it has no duplicates and its array-index
  keys come first, ascending.
\<close>

definition comesBefore :: "string \<Rightarrow> string \<Rightarrow> bool" where
  "comesBefore k k' =
     (case arrayIndex k' of
        None \<Rightarrow> k \<noteq> k'
      | Some j \<Rightarrow> (case arrayIndex k of None \<Rightarrow> False | Some i \<Rightarrow> i < j))"

fun ownKeyOrder :: "string list \<Rightarrow> bool" where
  "ownKeyOrder [] = True"
| "ownKeyOrder (k # ks) = (list_all (comesBefore k) ks \<and> ownKeyOrder ks)"

definition isString :: "'n prim \<Rightarrow> bool" where
  "isString v = (case v of JStr s \<Rightarrow> True | _ \<Rightarrow> False)"

section \<open>A host for the examples\<close>

text \<open>
  Integers with their decimal numerals, which is the textual form of an integral double
  of magnitude below 10^21. All of them are finite and all but 0 are truthy.
\<close>

definition decimalInt :: "int \<Rightarrow> string" where
  "decimalInt i = (if i < 0 then ''-'' @ decimal (nat (- i)) else decimal (nat i))"

definition intHost :: "int host" where
  "intHost = \<lparr>numToString = decimalInt, numFinite = (\<lambda>n. True), numTruthy = (\<lambda>n. n \<noteq> 0)\<rparr>"

section \<open>Inputs used as examples\<close>

definition exampleNested :: "int json" where
  "exampleNested = JObject [(''a'', JObject [(''b'', JScalar (JNum 1)), (''c'', JScalar (JNum 2))])]"

definition exampleTags :: "int json" where
  "exampleTags = JObject [(''tags'', JArray [JScalar (JStr ''x''), JScalar (JStr ''y'')])]"

definition exampleItems :: "int json" where
  "exampleItems = JObject [(''items'', JArray [JObject [(''n'', JScalar (JNum 1))]])]"

definition exampleDocumentsNull :: "int json" where
  "exampleDocumentsNull =
     JObject [(''_documents'', JScalar JNull), (''summary'', JScalar (JStr ''ok''))]"

definition exampleDocuments :: "int json" where
  "exampleDocuments =
     JObject [(''_documents'', JArray [JScalar (JStr ''a.pdf'')]),
              (''summary'', JObject [(''_documents'', JScalar (JNum 2))])]"

definition exampleLeaves :: "int json" where
  "exampleLeaves =
     JObject [(''n'', JScalar (JNum 1)), (''b'', JScalar (JBool True)), (''z'', JScalar JNull)]"

definition exampleNumbered :: "int json" where
  "exampleNumbered =
     JObject [(''1'', JObject [(''x'', JScalar (JNum 1))]), (''2'', JScalar (JNum 5))]"

definition exampleOrdered :: "(string \<times> int json) list" where
  "exampleOrdered =
     [(''7'', JScalar (JNum 0)),
      (''zeta'', JObject [(''b'', JScalar (JBool False)), (''a'', JArray [])]),
      (''alpha'', JScalar JNull)]"

definition exampleColliding :: "int json" where
  "exampleColliding =
     JObject [(''a.b'', JScalar (JNum 1)), (''c'', JScalar (JNum 2)),
              (''a'', JObject [(''b'', JScalar (JNum 3))])]"

definition exampleProtoArray :: "int json" where
  "exampleProtoArray = JObject [(''__proto__'', JArray [JScalar (JStr ''x''), JScalar (JStr ''y'')])]"

definition exampleCollidingArray :: "int json" where
  "exampleCollidingArray =
     JObject [(''a.b'', JArray [JScalar (JNum 1), JScalar (JNum 9)]),
              (''a'', JObject [(''b'', JScalar (JNum 2))])]"

definition exampleReport :: "(string \<times> int json) list" where
  "exampleReport =
     [(''doc'', JObject [(''tags'', JArray [JScalar (JStr ''x''), JScalar (JStr ''y'')]),
                         (''pages'', JScalar (JNum 3))]),
      (''ok'', JScalar (JBool True))]"

definition exampleSiblings :: "(string \<times> int json) list" where
  "exampleSiblings =
     [(''a'', JObject [(''x'', JScalar (JNum 1))]), (''b'', JObject [(''x'', JScalar (JNum 2))])]"

definition exampleMixedArray :: "int json list" where
  "exampleMixedArray =
     [JScalar (JNum 1), JArray [JScalar (JStr ''a''), JScalar JNull], JScalar (JBool False),
      JScalar JNull]"

definition exampleShadowed :: "int json" where
  "exampleShadowed =
     JObject [(''name'', JScalar (JStr ''t'')), (''hasOwnProperty'', JScalar (JBool True))]"

section \<open>Rules for evaluating the definitions on concrete inputs\<close>

lemmas flatten_eval =
  flattenObject_def flattenLoop.simps hasOwnProperty_def hasOwn_def childKey_def assign_def
  newObject_def defineOwn_def arrayIndex_def digitValue_def indexBelow_def joinArray_def
  join_def elementText_def collapseItem_def

lemmas host_eval = intHost_def decimalInt_def decimal.simps digitChar_def

lemmas json_eval = quoteJSON_def quoteChar_def dquote_def backslash_def newline_def hex4_def

lemmas render_eval =
  ResultsTable_def spread_def documentsTruthy_def deleteOwn_def humanize_def defineOwn_def
  hasOwn_def arrayIndex_def digitValue_def indexBelow_def

section \<open>The loop refines the traversal\<close>

lemma joinFrom_concat: "joinFrom sep r xs = r @ concat (map (\<lambda>x. sep @ x) xs)"
  by (induction xs arbitrary: r) simp_all

lemma joinedWith_Cons: "joinedWith sep (x # xs) = x @ concat (map (\<lambda>y. sep @ y) xs)"
  by (induction xs arbitrary: x) simp_all

lemma join_joinedWith: "join sep xs = joinedWith sep xs"
  by (cases xs) (simp_all add: join_def joinFrom_concat joinedWith_Cons)

lemma elementText_collapseItem: "elementText N (collapseItem N item) = itemText N item"
proof (cases item)
  case (JScalar p)
  then show ?thesis
    by (cases p) (simp_all add: elementText_def collapseItem_def itemText_def)
next
  case (JArray xs)
  then show ?thesis by (simp add: elementText_def collapseItem_def itemText_def)
next
  case (JObject kvs)
  then show ?thesis by (simp add: elementText_def collapseItem_def itemText_def)
qed

lemma joinArray_collapse: "joinArray N ''; '' (map (collapseItem N) xs) = arrayCell N xs"
  by (simp add: joinArray_def arrayCell_def join_joinedWith elementText_collapseItem comp_def)

lemma assignAll_append: "assignAll res (as @ bs) = assignAll (assignAll res as) bs"
  by (simp add: assignAll_def)

lemma assignAll_Cons: "assignAll res ((k, v) # es) = assignAll (assign res k v) es"
  by (simp add: assignAll_def)

lemma assignAll_Nil: "assignAll res [] = res"
  by (simp add: assignAll_def)

lemma hasOwnProperty_member:
  assumes "\<not> hasOwn kvs ''hasOwnProperty''" and "(key, val) \<in> set kvs"
  shows "hasOwnProperty (JObject kvs) key = Inr True"
  using assms by (force simp: hasOwnProperty_def hasOwn_def)

lemma flattenLoop_refines:
  assumes "\<forall>kv \<in> set es. hasOwnProperty obj (fst kv) = Inr True"
    and "traversableProps es"
  shows "flattenLoop N obj es prefix res = Inr (assignAll res (depthFirst N prefix es))"
  using assms
proof (induction N obj es prefix res rule: flattenLoop.induct)
  case (1 N obj prefix res)
  show ?case by (simp add: flattenLoop.simps assignAll_Nil)
next
  case (2 N obj key val rest prefix res)
  have own: "hasOwnProperty obj key = Inr True" using "2.prems"(1) by simp
  have rest_own: "\<forall>kv \<in> set rest. hasOwnProperty obj (fst kv) = Inr True"
    using "2.prems"(1) by simp
  have rest_ok: "traversableProps rest" and val_ok: "traversable val"
    using "2.prems"(2) by simp_all
  show ?case
  proof (cases val)
    case (JScalar p)
    have "flattenLoop N obj rest prefix (assign res (childKey prefix key) p)
          = Inr (assignAll (assign res (childKey prefix key) p) (depthFirst N prefix rest))"
      using "2.IH"(2) [OF own _ JScalar rest_own rest_ok] by simp
    then show ?thesis
      using own JScalar by (simp add: flattenLoop.simps assignAll_Cons)
  next
    case (JArray xs)
    have "flattenLoop N obj rest prefix
            (assign res (childKey prefix key) (JStr (joinArray N ''; '' (map (collapseItem N) xs))))
          = Inr (assignAll (assign res (childKey prefix key)
                   (JStr (joinArray N ''; '' (map (collapseItem N) xs)))) (depthFirst N prefix rest))"
      using "2.IH"(3) [OF own _ JArray rest_own rest_ok] by simp
    then show ?thesis
      using own JArray by (simp add: flattenLoop.simps assignAll_Cons joinArray_collapse)
  next
    case (JObject kvs)
    have kvs_own: "\<forall>kv \<in> set kvs. hasOwnProperty val (fst kv) = Inr True"
      using val_ok JObject by (auto intro: hasOwnProperty_member)
    have kvs_ok: "traversableProps kvs" using val_ok JObject by simp
    have inner: "flattenLoop N val kvs (childKey prefix key) res
                 = Inr (assignAll res (depthFirst N (childKey prefix key) kvs))"
      using "2.IH"(4) [OF own _ JObject kvs_own kvs_ok] by simp
    have "flattenLoop N obj rest prefix (assignAll res (depthFirst N (childKey prefix key) kvs))
          = Inr (assignAll (assignAll res (depthFirst N (childKey prefix key) kvs))
                   (depthFirst N prefix rest))"
      using "2.IH"(5) [OF own _ JObject inner rest_own rest_ok] by simp
    then show ?thesis
      using own JObject inner by (simp add: flattenLoop.simps assignAll_append)
  qed
qed

lemma flattenObject_refines:
  assumes "traversable (JObject kvs)"
  shows "flattenObject N (JObject kvs) prefix res = Inr (assignAll res (depthFirst N prefix kvs))"
proof -
  have "\<forall>kv \<in> set kvs. hasOwnProperty (JObject kvs) (fst kv) = Inr True"
    using assms by (auto intro: hasOwnProperty_member)
  moreover have "traversableProps kvs" using assms by simp
  ultimately show ?thesis
    unfolding flattenObject_def by (simp add: flattenLoop_refines)
qed

subsection \<open>The keys of the accumulator stay distinct\<close>

lemma keys_defineOwn_new:
  assumes "\<not> hasOwn ps k"
  shows "set (map fst (defineOwn ps k v)) = insert k (set (map fst ps))"
    and "distinct (map fst ps) \<Longrightarrow> distinct (map fst (defineOwn ps k v))"
proof -
  let ?P = "\<lambda>kv. indexBelow (the (arrayIndex k)) (fst kv)"
  have split: "map fst ps = map fst (takeWhile ?P ps) @ map fst (dropWhile ?P ps)"
    by (metis map_append takeWhile_dropWhile_id)
  show "set (map fst (defineOwn ps k v)) = insert k (set (map fst ps))"
  proof (cases "arrayIndex k")
    case None
    then show ?thesis using assms by (simp add: defineOwn_def)
  next
    case (Some i)
    have "set ps = set (takeWhile ?P ps) \<union> set (dropWhile ?P ps)"
      by (metis set_append takeWhile_dropWhile_id)
    then show ?thesis using assms Some by (auto simp: defineOwn_def)
  qed
  assume d: "distinct (map fst ps)"
  show "distinct (map fst (defineOwn ps k v))"
  proof (cases "arrayIndex k")
    case None
    then show ?thesis using assms d by (simp add: defineOwn_def hasOwn_def)
  next
    case (Some i)
    have d2: "distinct (map fst (takeWhile ?P ps) @ map fst (dropWhile ?P ps))"
      using d split by simp
    have notin: "k \<notin> set (map fst (takeWhile ?P ps))" "k \<notin> set (map fst (dropWhile ?P ps))"
      using assms split unfolding hasOwn_def by (metis Un_iff set_append)+
    show ?thesis using assms Some d2 notin by (auto simp: defineOwn_def)
  qed
qed

lemma keys_defineOwn_old:
  assumes "hasOwn ps k"
  shows "map fst (defineOwn ps k v) = map fst ps"
  using assms by (simp add: defineOwn_def comp_def cong: map_cong)

lemma distinct_defineOwn:
  "distinct (map fst ps) \<Longrightarrow> distinct (map fst (defineOwn ps k v))"
  by (cases "hasOwn ps k") (simp_all add: keys_defineOwn_old keys_defineOwn_new)

lemma distinct_assign: "distinct (keys res) \<Longrightarrow> distinct (keys (assign res k v))"
  by (simp add: keys_def assign_def distinct_defineOwn)

lemma distinct_assignAll: "distinct (keys res) \<Longrightarrow> distinct (keys (assignAll res es))"
  unfolding assignAll_def by (induction es arbitrary: res) (simp_all add: distinct_assign)

lemma flattenLoop_distinct:
  assumes "flattenLoop N obj es prefix res = Inr out" and "distinct (keys res)"
  shows "distinct (keys out)"
  using assms
proof (induction N obj es prefix res arbitrary: out rule: flattenLoop.induct)
  case (1 N obj prefix res)
  then show ?case by (simp add: flattenLoop.simps)
next
  case (2 N obj key val rest prefix res)
  then show ?case
    by (auto simp: flattenLoop.simps distinct_assign split: sum.splits if_splits json.splits)
qed

subsection \<open>Assignments that arrive in own-property order are appended\<close>

lemma ownKeyOrder_append: "ownKeyOrder (xs @ ys) \<Longrightarrow> ownKeyOrder xs"
  by (induction xs) (simp_all add: list_all_iff)

lemma ownKeyOrder_snoc: "ownKeyOrder (ks @ [k]) \<Longrightarrow> \<forall>k' \<in> set ks. comesBefore k' k"
  by (induction ks) (simp_all add: list_all_iff)

lemma comesBefore_neq: "comesBefore k' k \<Longrightarrow> k' \<noteq> k"
  by (auto simp: comesBefore_def split: option.splits)

lemma comesBefore_index: "comesBefore k' k \<Longrightarrow> arrayIndex k = Some i \<Longrightarrow> indexBelow i k'"
  by (auto simp: comesBefore_def indexBelow_def split: option.splits)

lemma defineOwn_in_order:
  assumes "ownKeyOrder (map fst ps @ [k])"
  shows "defineOwn ps k v = ps @ [(k, v)]"
proof -
  have before: "\<forall>k' \<in> set (map fst ps). comesBefore k' k"
    using assms by (rule ownKeyOrder_snoc)
  then have new: "\<not> hasOwn ps k"
    unfolding hasOwn_def using comesBefore_neq by blast
  show ?thesis
  proof (cases "arrayIndex k")
    case None
    then show ?thesis using new by (simp add: defineOwn_def)
  next
    case (Some i)
    have "\<forall>kv \<in> set ps. indexBelow i (fst kv)"
      using before Some comesBefore_index by fastforce
    then have "takeWhile (\<lambda>kv. indexBelow i (fst kv)) ps = ps"
      and "dropWhile (\<lambda>kv. indexBelow i (fst kv)) ps = []"
      by simp_all
    then show ?thesis using new Some by (simp add: defineOwn_def)
  qed
qed

lemma assignAll_in_order:
  assumes "ownKeyOrder (keys res @ map fst es)" and "''__proto__'' \<notin> set (map fst es)"
  shows "assignAll res es = res\<lparr>entries := entries res @ es\<rparr>"
  using assms
proof (induction es arbitrary: res)
  case Nil
  then show ?case by (simp add: assignAll_Nil)
next
  case (Cons e es)
  obtain k v where e: "e = (k, v)" by (cases e)
  have "ownKeyOrder ((map fst (entries res) @ [k]) @ map fst es)"
    using Cons.prems(1) e by (simp add: keys_def)
  then have "ownKeyOrder (map fst (entries res) @ [k])"
    by (rule ownKeyOrder_append)
  then have def: "defineOwn (entries res) k v = entries res @ [(k, v)]"
    by (rule defineOwn_in_order)
  have k: "k \<noteq> ''__proto__''" using Cons.prems(2) e by auto
  have step: "assign res k v = res\<lparr>entries := entries res @ [(k, v)]\<rparr>"
    using k def by (simp add: assign_def)
  have "assignAll (assign res k v) es
        = (assign res k v)\<lparr>entries := entries (assign res k v) @ es\<rparr>"
  proof (rule Cons.IH)
    show "ownKeyOrder (keys (assign res k v) @ map fst es)"
      using Cons.prems(1) e step by (simp add: keys_def)
    show "''__proto__'' \<notin> set (map fst es)" using Cons.prems(2) by simp
  qed
  then show ?case using e step by (simp add: assignAll_Cons)
qed

subsection \<open>The recursive helpers are maps\<close>

lemma renderRows_map:
  "renderRows N kvs = map (\<lambda>kv. (humanize (fst kv), renderValue N (snd kv))) kvs"
  by (induction kvs) auto

lemma renderItems_map: "renderItems N xs = map (renderValue N) xs"
  by (induction xs) auto

lemma doubleQuotes_concat:
  "doubleQuotes s = concat (map (\<lambda>c. if c = dquote then [dquote, dquote] else [c]) s)"
  by (induction s) simp_all

subsection \<open>What the flat mapping holds when no assignment is lost\<close>

lemma visited_array:
  "(path, JArray xs) \<in> set (visited prefix kvs)
   \<Longrightarrow> (path, JStr (arrayCell N xs)) \<in> set (depthFirst N prefix kvs)"
proof (induction prefix kvs rule: visited.induct)
  case (1 prefix)
  then show ?case by simp
next
  case (2 prefix key val rest)
  then show ?case by (cases val) auto
qed

lemma visited_scalar:
  "(path, JScalar p) \<in> set (visited prefix kvs) \<Longrightarrow> (path, p) \<in> set (depthFirst N prefix kvs)"
proof (induction prefix kvs rule: visited.induct)
  case (1 prefix)
  then show ?case by simp
next
  case (2 prefix key val rest)
  then show ?case by (cases val) auto
qed

lemma depthFirst_paths_visited: "map fst (depthFirst N prefix kvs) = map fst (visited prefix kvs)"
proof (induction N prefix kvs rule: depthFirst.induct)
  case (1 N prefix)
  then show ?case by simp
next
  case (2 N prefix key val rest)
  then show ?case by (cases val) simp_all
qed

lemma entries_defineOwn_new:
  assumes "\<not> hasOwn ps k"
  shows "set (defineOwn ps k v) = insert (k, v) (set ps)"
proof (cases "arrayIndex k")
  case None
  then show ?thesis using assms by (simp add: defineOwn_def)
next
  case (Some i)
  have "set ps = set (takeWhile (\<lambda>kv. indexBelow i (fst kv)) ps)
               \<union> set (dropWhile (\<lambda>kv. indexBelow i (fst kv)) ps)"
    by (metis set_append takeWhile_dropWhile_id)
  then show ?thesis using assms Some by (auto simp: defineOwn_def)
qed

lemma assignAll_set:
  assumes "distinct (map fst es)"
    and "\<forall>e \<in> set es. \<not> hasOwn (entries res) (fst e)"
    and "''__proto__'' \<notin> set (map fst es)"
  shows "set (entries (assignAll res es)) = set (entries res) \<union> set es"
  using assms
proof (induction es arbitrary: res)
  case Nil
  then show ?case by (simp add: assignAll_Nil)
next
  case (Cons e es)
  obtain k v where e: "e = (k, v)" by (cases e)
  have new: "\<not> hasOwn (entries res) k" using Cons.prems(2) e by simp
  have k: "k \<noteq> ''__proto__''" using Cons.prems(3) e by auto
  have step: "assign res k v = res\<lparr>entries := defineOwn (entries res) k v\<rparr>"
    using k by (simp add: assign_def)
  have ents: "set (entries (assign res k v)) = insert (k, v) (set (entries res))"
    using step new by (simp add: entries_defineOwn_new)
  have "set (entries (assignAll (assign res k v) es)) = set (entries (assign res k v)) \<union> set es"
  proof (rule Cons.IH)
    show "distinct (map fst es)" using Cons.prems(1) by simp
    show "\<forall>e' \<in> set es. \<not> hasOwn (entries (assign res k v)) (fst e')"
    proof
      fix e' assume e': "e' \<in> set es"
      have "fst e' \<noteq> k" using Cons.prems(1) e e' by auto
      moreover have "\<not> hasOwn (entries res) (fst e')" using Cons.prems(2) e' by simp
      ultimately show "\<not> hasOwn (entries (assign res k v)) (fst e')"
        by (simp add: hasOwn_def ents)
    qed
    show "''__proto__'' \<notin> set (map fst es)" using Cons.prems(3) by simp
  qed
  then show ?case using e ents by (auto simp: assignAll_Cons)
qed

lemma filter_key_single:
  "distinct (map fst ps) \<Longrightarrow> (k, v) \<in> set ps \<Longrightarrow> filter (\<lambda>e. fst e = k) ps = [(k, v)]"
proof (induction ps)
  case Nil
  then show ?case by simp
next
  case (Cons p ps)
  show ?case
  proof (cases "p = (k, v)")
    case True
    have "k \<notin> fst ` set ps" using Cons.prems(1) True by simp
    then have "\<forall>e \<in> set ps. fst e \<noteq> k" by blast
    then have "filter (\<lambda>e. fst e = k) ps = []" by (simp add: filter_empty_conv)
    then show ?thesis using True by simp
  next
    case False
    then have mem: "(k, v) \<in> set ps" using Cons.prems(2) by simp
    then have "k \<in> fst ` set ps" by (rule image_eqI [rotated]) simp
    then have "fst p \<noteq> k" using Cons.prems(1) by auto
    then show ?thesis using Cons.IH Cons.prems(1) mem by simp
  qed
qed

lemma flattened_set:
  assumes "distinct (map fst (depthFirst N [] kvs))"
    and "''__proto__'' \<notin> set (map fst (depthFirst N [] kvs))"
  shows "set (entries (assignAll newObject (depthFirst N [] kvs))) = set (depthFirst N [] kvs)"
proof -
  have "set (entries (assignAll newObject (depthFirst N [] kvs)))
        = set (entries (newObject :: 'a object)) \<union> set (depthFirst N [] kvs)"
    using assms by (intro assignAll_set) (simp_all add: newObject_def hasOwn_def)
  then show ?thesis by (simp add: newObject_def)
qed

lemma flattened_entry:
  assumes "traversable (JObject kvs)"
    and "distinct (map fst (depthFirst N [] kvs))"
    and "''__proto__'' \<notin> set (map fst (depthFirst N [] kvs))"
    and "(path, v) \<in> set (depthFirst N [] kvs)"
  shows "flattenObject N (JObject kvs) [] newObject = Inr (assignAll newObject (depthFirst N [] kvs))"
    and "set (entries (assignAll newObject (depthFirst N [] kvs))) = set (depthFirst N [] kvs)"
    and "filter (\<lambda>e. fst e = path) (entries (assignAll newObject (depthFirst N [] kvs)))
         = [(path, v)]"
proof -
  show "flattenObject N (JObject kvs) [] newObject = Inr (assignAll newObject (depthFirst N [] kvs))"
    using assms(1) by (rule flattenObject_refines)
  have "set (entries (assignAll newObject (depthFirst N [] kvs)))
        = set (entries (newObject :: 'a object)) \<union> set (depthFirst N [] kvs)"
    using assms(2,3) by (intro assignAll_set) (simp_all add: newObject_def hasOwn_def)
  then show s: "set (entries (assignAll newObject (depthFirst N [] kvs))) = set (depthFirst N [] kvs)"
    by (simp add: newObject_def)
  have "distinct (keys (assignAll (newObject :: 'a object) (depthFirst N [] kvs)))"
    by (rule distinct_assignAll) (simp add: keys_def newObject_def)
  then show "filter (\<lambda>e. fst e = path) (entries (assignAll newObject (depthFirst N [] kvs)))
         = [(path, v)]"
    using s assms(4) by (intro filter_key_single) (simp_all add: keys_def)
qed

lemma flattened_keys:
  assumes "set (entries out) = set (depthFirst N prefix kvs)"
  shows "set (keys out) = set (map fst (visited prefix kvs))"
proof -
  have "set (keys out) = fst ` set (entries out)" by (simp add: keys_def)
  also have "\<dots> = fst ` set (depthFirst N prefix kvs)" using assms by (rule arg_cong)
  also have "\<dots> = set (map fst (depthFirst N prefix kvs))" by simp
  also have "\<dots> = set (map fst (visited prefix kvs))" by (simp only: depthFirst_paths_visited)
  finally show ?thesis .
qed

lemma flattened_size:
  assumes "distinct (map fst es)" and "set (entries out) = set es" and "distinct (keys out)"
  shows "length (entries out) = length es"
proof -
  have "set (keys out) = set (map fst es)" using assms(2) by (simp add: keys_def)
  then have "card (set (keys out)) = card (set (map fst es))" by (rule arg_cong)
  moreover have "card (set (keys out)) = length (keys out)"
    using assms(3) by (rule distinct_card)
  moreover have "card (set (map fst es)) = length (map fst es)"
    using assms(1) by (rule distinct_card)
  ultimately have "length (keys out) = length (map fst es)" by (simp only:)
  then show ?thesis by (simp add: keys_def)
qed

subsection \<open>Plain keys compose distinct paths\<close>

lemma childKey_nonempty: "key \<noteq> [] \<Longrightarrow> childKey prefix key \<noteq> []"
  by (simp add: childKey_def)

lemma paths_below:
  "q \<noteq> [] \<Longrightarrow> path \<in> fst ` set (depthFirst N q kvs) \<Longrightarrow> \<exists>r. path = q @ ''.'' @ r"
proof (induction N q kvs rule: depthFirst.induct)
  case (1 N prefix)
  then show ?case by simp
next
  case (2 N prefix key val rest)
  have ck: "childKey prefix key = prefix @ ''.'' @ key"
    using "2.prems"(1) by (simp add: childKey_def)
  show ?case
  proof (cases "path \<in> fst ` set (depthFirst N prefix rest)")
    case True
    then show ?thesis using "2.IH"(2) "2.prems"(1) by blast
  next
    case False
    show ?thesis
    proof (cases val)
      case (JScalar p)
      then have "path = childKey prefix key" using "2.prems"(2) False by auto
      then show ?thesis using ck by simp
    next
      case (JArray xs)
      then have "path = childKey prefix key" using "2.prems"(2) False by auto
      then show ?thesis using ck by simp
    next
      case (JObject kvs')
      then have "path \<in> fst ` set (depthFirst N (childKey prefix key) kvs')"
        using "2.prems"(2) False by auto
      moreover have "childKey prefix key \<noteq> []" using ck by simp
      ultimately obtain r where "path = childKey prefix key @ ''.'' @ r"
        using "2.IH"(1) [OF JObject] by blast
      then have "path = prefix @ ''.'' @ (key @ ''.'' @ r)" using ck by simp
      then show ?thesis by blast
    qed
  qed
qed

lemma plainKeysProps_key:
  "plainKeysProps kvs \<Longrightarrow> (k, v) \<in> set kvs \<Longrightarrow> k \<noteq> [] \<and> CHR ''.'' \<notin> set k"
  by (induction kvs) auto

lemma paths_from_key:
  assumes "path \<in> fst ` set (depthFirst N prefix kvs)" and "plainKeysProps kvs"
  shows "\<exists>k \<in> fst ` set kvs. \<exists>r. path = childKey prefix k @ r \<and> (r = [] \<or> hd r = CHR ''.'')"
  using assms
proof (induction kvs)
  case Nil
  then show ?case by simp
next
  case (Cons kv rest)
  obtain key val where kv: "kv = (key, val)" by (cases kv)
  have key: "key \<noteq> []" and rest_ok: "plainKeysProps rest"
    using Cons.prems(2) kv by simp_all
  show ?case
  proof (cases "path \<in> fst ` set (depthFirst N prefix rest)")
    case True
    then show ?thesis using Cons.IH rest_ok by auto
  next
    case False
    have "\<exists>r. path = childKey prefix key @ r \<and> (r = [] \<or> hd r = CHR ''.'')"
    proof (cases val)
      case (JScalar p)
      then have "path = childKey prefix key" using Cons.prems(1) False kv by auto
      then show ?thesis by simp
    next
      case (JArray xs)
      then have "path = childKey prefix key" using Cons.prems(1) False kv by auto
      then show ?thesis by simp
    next
      case (JObject kvs')
      then have "path \<in> fst ` set (depthFirst N (childKey prefix key) kvs')"
        using Cons.prems(1) False kv by auto
      then obtain r where "path = childKey prefix key @ ''.'' @ r"
        using paths_below [OF childKey_nonempty [OF key]] by blast
      then have "path = childKey prefix key @ (''.'' @ r) \<and> hd (''.'' @ r) = CHR ''.''" by simp
      then show ?thesis by blast
    qed
    then show ?thesis using kv by auto
  qed
qed

lemma key_determined:
  assumes "k @ a = k' @ b"
    and "CHR ''.'' \<notin> set k" and "CHR ''.'' \<notin> set k'"
    and "a = [] \<or> hd a = CHR ''.''" and "b = [] \<or> hd b = CHR ''.''"
  shows "k = k'"
proof -
  have stop: "\<And>r. r = [] \<or> hd r = CHR ''.'' \<Longrightarrow> takeWhile (\<lambda>c. c \<noteq> CHR ''.'') r = []"
    by (case_tac r) auto
  have "takeWhile (\<lambda>c. c \<noteq> CHR ''.'') (k @ a) = k @ takeWhile (\<lambda>c. c \<noteq> CHR ''.'') a"
    by (rule takeWhile_append2) (use assms(2) in auto)
  then have "takeWhile (\<lambda>c. c \<noteq> CHR ''.'') (k @ a) = k"
    using stop [OF assms(4)] by simp
  moreover have "takeWhile (\<lambda>c. c \<noteq> CHR ''.'') (k' @ b) = k' @ takeWhile (\<lambda>c. c \<noteq> CHR ''.'') b"
    by (rule takeWhile_append2) (use assms(3) in auto)
  then have "takeWhile (\<lambda>c. c \<noteq> CHR ''.'') (k' @ b) = k'"
    using stop [OF assms(5)] by simp
  ultimately show ?thesis using assms(1) by simp
qed

lemma childKey_cancel: "childKey prefix k @ a = childKey prefix k' @ b \<Longrightarrow> k @ a = k' @ b"
  by (simp add: childKey_def split: if_splits)

lemma depthFirst_paths_distinct:
  "distinct (map fst kvs) \<Longrightarrow> plainKeysProps kvs \<Longrightarrow> distinct (map fst (depthFirst N prefix kvs))"
proof (induction N prefix kvs rule: depthFirst.induct)
  case (1 N prefix)
  then show ?case by simp
next
  case (2 N prefix key val rest)
  let ?here = "case val of
        JObject kvs \<Rightarrow> depthFirst N (childKey prefix key) kvs
      | JArray xs \<Rightarrow> [(childKey prefix key, JStr (arrayCell N xs))]
      | JScalar p \<Rightarrow> [(childKey prefix key, p)]"
  have key: "key \<noteq> []" "CHR ''.'' \<notin> set key" and val_ok: "plainKeys val"
    and rest_ok: "plainKeysProps rest"
    using "2.prems"(2) by simp_all
  have new: "key \<notin> fst ` set rest" and rest_d: "distinct (map fst rest)"
    using "2.prems"(1) by simp_all
  have d_rest: "distinct (map fst (depthFirst N prefix rest))"
    using "2.IH"(2) rest_d rest_ok by simp
  have d_here: "distinct (map fst ?here)"
  proof (cases val)
    case (JObject kvs')
    then show ?thesis using "2.IH"(1) [OF JObject] val_ok by simp
  qed simp_all
  have here_form: "\<exists>a. path = childKey prefix key @ a \<and> (a = [] \<or> hd a = CHR ''.'')"
    if "path \<in> fst ` set ?here" for path
  proof (cases val)
    case (JScalar p)
    then show ?thesis using that by simp
  next
    case (JArray xs)
    then show ?thesis using that by simp
  next
    case (JObject kvs')
    then have "path \<in> fst ` set (depthFirst N (childKey prefix key) kvs')" using that by simp
    then obtain r where "path = childKey prefix key @ ''.'' @ r"
      using paths_below [OF childKey_nonempty [OF key(1)]] by blast
    then have "path = childKey prefix key @ (''.'' @ r) \<and> hd (''.'' @ r) = CHR ''.''" by simp
    then show ?thesis by blast
  qed
  have disjoint: "fst ` set ?here \<inter> fst ` set (depthFirst N prefix rest) = {}"
  proof (rule ccontr)
    assume "fst ` set ?here \<inter> fst ` set (depthFirst N prefix rest) \<noteq> {}"
    then obtain path where h: "path \<in> fst ` set ?here"
      and r: "path \<in> fst ` set (depthFirst N prefix rest)" by blast
    obtain a where a: "path = childKey prefix key @ a" "a = [] \<or> hd a = CHR ''.''"
      using here_form [OF h] by blast
    obtain k' b where k': "k' \<in> fst ` set rest"
      and b: "path = childKey prefix k' @ b" "b = [] \<or> hd b = CHR ''.''"
      using paths_from_key [OF r rest_ok] by blast
    have "CHR ''.'' \<notin> set k'" using k' rest_ok plainKeysProps_key by fastforce
    moreover have "key @ a = k' @ b" using a(1) b(1) childKey_cancel by metis
    ultimately have "key = k'" using key(2) a(2) b(2) key_determined by blast
    then show False using new k' by simp
  qed
  show ?case using d_here d_rest disjoint by simp
qed

section \<open>The claims\<close>

subsection \<open>C1: the traversal of flattenObject\<close>

text \<open>
  On \<^verbatim>\<open>{"a": {"b": 1, "c": 2}}\<close> the flat mapping does not hold the strings \<^verbatim>\<open>"1"\<close> and \<^verbatim>\<open>"2"\<close>:
  line 117 stores \<^verbatim>\<open>obj[key]\<close> itself.
\<close>

theorem flattenObject_nested_not_strings:
  "flattenObject intHost exampleNested [] newObject
   \<noteq> Inr \<lparr>entries = [(''a.b'', JStr ''1''), (''a.c'', JStr ''2'')], nullProto = False\<rparr>"
  by (simp add: exampleNested_def flatten_eval)

text \<open>
  C1, as the code has it. For every non-array object in which no object that the traversal
  enters has an own key \<^verbatim>\<open>hasOwnProperty\<close>, \<^verbatim>\<open>flattenObject\<close> performs exactly the assignments
  of the depth-first traversal, in its order: keys are visited in the object's own order,
  the child path is the key alone under an empty prefix and prefix, dot, key otherwise, a
  non-array object is entered without an assignment of its own, and only scalars and
  arrays are assigned. On \<^verbatim>\<open>{"a": {"b": 1, "c": 2}}\<close> the result is the two entries
  (a.b, 1) and (a.c, 2) in that order, with the numbers as values, whose string forms are
  \<^verbatim>\<open>"1"\<close> and \<^verbatim>\<open>"2"\<close>.
\<close>

theorem flattenObject_traversal:
  assumes "traversable (JObject kvs)"
  shows "flattenObject N (JObject kvs) prefix res = Inr (assignAll res (depthFirst N prefix kvs))
    \<and> childKey [] key = key
    \<and> childKey (c # cs) key = (c # cs) @ ''.'' @ key
    \<and> flattenObject intHost exampleNested [] newObject
        = Inr \<lparr>entries = [(''a.b'', JNum 1), (''a.c'', JNum 2)], nullProto = False\<rparr>
    \<and> map (ToString intHost) [JNum 1, JNum 2] = [''1'', ''2'']"
proof -
  have "flattenObject N (JObject kvs) prefix res = Inr (assignAll res (depthFirst N prefix kvs))"
    using assms by (rule flattenObject_refines)
  moreover have "flattenObject intHost exampleNested [] newObject
        = Inr \<lparr>entries = [(''a.b'', JNum 1), (''a.c'', JNum 2)], nullProto = False\<rparr>"
    by (simp add: exampleNested_def flatten_eval)
  moreover have "map (ToString intHost) [JNum 1, JNum 2] = [''1'', ''2'']"
    by (simp add: host_eval)
  ultimately show ?thesis by (simp add: childKey_def)
qed

theorem flattenObject_traversal_witness:
  "flattenObject intHost
     (JObject [(''a'', JObject [(''b'', JScalar (JNum 1))]), (''t'', JArray [])]) ''p'' newObject
   = Inr \<lparr>entries = [(''p.a.b'', JNum 1), (''p.t'', JStr [])], nullProto = False\<rparr>"
proof -
  have t: "traversable
             (JObject [(''a'', JObject [(''b'', JScalar (JNum (1::int)))]), (''t'', JArray [])])"
    by (simp add: hasOwn_def)
  show ?thesis
    using flattenObject_traversal [OF t, of intHost "''p''" newObject]
    by (simp add: assignAll_def flatten_eval arrayCell_def)
qed

subsection \<open>C2: an array is one entry\<close>

text \<open>
  An array under the key \<^verbatim>\<open>__proto__\<close> is reached by the loop and leaves no entry, and an array
  whose path is assigned again later loses its joined value.
\<close>

theorem flattenObject_array_without_entry:
  "hasOwnProperty exampleProtoArray ''__proto__'' = Inr True
   \<and> flattenObject intHost exampleProtoArray [] newObject
     = Inr \<lparr>entries = [], nullProto = False\<rparr>
   \<and> flattenObject intHost exampleCollidingArray [] newObject
     = Inr \<lparr>entries = [(''a.b'', JNum 2)], nullProto = False\<rparr>"
  by (simp add: exampleProtoArray_def exampleCollidingArray_def flatten_eval)

text \<open>
  C2, as the code has it. When no object entered has an own key \<^verbatim>\<open>hasOwnProperty\<close>, the
  composed paths are pairwise distinct and none of them is \<^verbatim>\<open>__proto__\<close>, the flat mapping
  that \<^verbatim>\<open>flattenObject\<close> returns has, for every array the traversal reaches, exactly one entry
  at the array's path, never one per index: its value is the string of the items joined
  with \<^verbatim>\<open>"; "\<close>, a scalar item in its string form and an object or nested array as compact
  JSON text, and the paths of the mapping are the paths of the leaves and arrays reached.
  \<^verbatim>\<open>{"tags": ["x","y"]}\<close> gives the single entry (tags, "x; y") and \<^verbatim>\<open>{"items":[{"n":1}]}\<close>
  the single entry whose value is the JSON text \<^verbatim>\<open>{"n":1}\<close>.
\<close>

theorem flattenObject_array_single_entry:
  assumes "traversable (JObject kvs)"
    and "distinct (map fst (depthFirst N [] kvs))"
    and "''__proto__'' \<notin> set (map fst (depthFirst N [] kvs))"
    and "(path, JArray xs) \<in> set (visited [] kvs)"
  shows "flattenObject N (JObject kvs) [] newObject
           = Inr (assignAll newObject (depthFirst N [] kvs))
    \<and> filter (\<lambda>e. fst e = path) (entries (assignAll newObject (depthFirst N [] kvs)))
        = [(path, JStr (arrayCell N xs))]
    \<and> set (keys (assignAll newObject (depthFirst N [] kvs))) = set (map fst (visited [] kvs))
    \<and> flattenObject intHost exampleTags [] newObject
        = Inr \<lparr>entries = [(''tags'', JStr ''x; y'')], nullProto = False\<rparr>
    \<and> flattenObject intHost exampleItems [] newObject
        = Inr \<lparr>entries = [(''items'', JStr (stringify intHost (JObject [(''n'', JScalar (JNum 1))])))],
               nullProto = False\<rparr>
    \<and> stringify intHost (JObject [(''n'', JScalar (JNum 1))])
        = ''{'' @ [dquote] @ ''n'' @ [dquote] @ '':1}''
    \<and> arrayCell intHost exampleMixedArray
        = ''1; ['' @ [dquote] @ ''a'' @ [dquote] @ '',null]; false; null''"
proof -
  have cell: "(path, JStr (arrayCell N xs)) \<in> set (depthFirst N [] kvs)"
    using assms(4) by (rule visited_array)
  note r = flattened_entry [OF assms(1,2,3) cell]
  have "set (keys (assignAll newObject (depthFirst N [] kvs))) = set (map fst (visited [] kvs))"
    using r(2) by (rule flattened_keys)
  moreover have "flattenObject intHost exampleTags [] newObject
        = Inr \<lparr>entries = [(''tags'', JStr ''x; y'')], nullProto = False\<rparr>"
    by (simp add: exampleTags_def flatten_eval)
  moreover have "flattenObject intHost exampleItems [] newObject
        = Inr \<lparr>entries = [(''items'', JStr (stringify intHost (JObject [(''n'', JScalar (JNum 1))])))],
               nullProto = False\<rparr>"
    by (simp add: exampleItems_def flatten_eval)
  moreover have "stringify intHost (JObject [(''n'', JScalar (JNum 1))])
        = ''{'' @ [dquote] @ ''n'' @ [dquote] @ '':1}''"
    by (simp add: join_def json_eval host_eval)
  moreover have "arrayCell intHost exampleMixedArray
        = ''1; ['' @ [dquote] @ ''a'' @ [dquote] @ '',null]; false; null''"
    by (simp add: exampleMixedArray_def arrayCell_def itemText_def join_def json_eval host_eval)
  ultimately show ?thesis using r(1,3) by simp
qed

theorem flattenObject_array_single_entry_witness:
  "flattenObject intHost (JObject exampleReport) [] newObject
     = Inr \<lparr>entries = [(''doc.tags'', JStr ''x; y''), (''doc.pages'', JNum 3), (''ok'', JBool True)],
            nullProto = False\<rparr>
   \<and> filter (\<lambda>e. fst e = ''doc.tags'')
        [(''doc.tags'', JStr ''x; y''), (''doc.pages'', JNum (3::int)), (''ok'', JBool True)]
     = [(''doc.tags'', JStr ''x; y'')]"
proof -
  have t: "traversable (JObject exampleReport)"
    by (simp add: exampleReport_def hasOwn_def)
  have df: "depthFirst intHost [] exampleReport
            = [(''doc.tags'', JStr ''x; y''), (''doc.pages'', JNum 3), (''ok'', JBool True)]"
    by (simp add: exampleReport_def childKey_def arrayCell_def itemText_def)
  have d: "distinct (map fst (depthFirst intHost [] exampleReport))"
    unfolding df by simp
  have np: "''__proto__'' \<notin> set (map fst (depthFirst intHost [] exampleReport))"
    unfolding df by simp
  have v: "(''doc.tags'', JArray [JScalar (JStr ''x''), JScalar (JStr ''y'')])
           \<in> set (visited [] exampleReport)"
    by (simp add: exampleReport_def childKey_def)
  have run: "assignAll newObject (depthFirst intHost [] exampleReport)
             = \<lparr>entries = [(''doc.tags'', JStr ''x; y''), (''doc.pages'', JNum 3), (''ok'', JBool True)],
                nullProto = False\<rparr>"
    unfolding df by (simp add: assignAll_def flatten_eval)
  show ?thesis
    using flattenObject_array_single_entry [OF t d np v] unfolding run
    by (simp add: arrayCell_def itemText_def)
qed

subsection \<open>C3: the reserved key _documents\<close>

text \<open>
  C3. The table is built from a copy of the input without the top-level key \<^verbatim>\<open>_documents\<close>,
  nested occurrences stay, and \<^verbatim>\<open>flattenObject\<close> keeps the key. The guard on line 48 tests the
  value of the property, not its presence: on \<^verbatim>\<open>{"_documents": null, "summary": "ok"}\<close> the
  key is present and its row is rendered. With a truthy value the row is gone, a nested
  \<^verbatim>\<open>_documents\<close> is rendered, and the flat mapping has both.
\<close>

theorem ResultsTable_keeps_null_documents:
  "ResultsTable intHost (Some exampleDocumentsNull)
     = Results [('' documents'', Span ''N/A''), (''summary'', Text ''ok'')]
   \<and> ResultsTable intHost (Some exampleDocuments)
     = Results [(''summary'', TableOf [('' documents'', Text ''2'')])]
   \<and> flattenObject intHost exampleDocuments [] newObject
     = Inr \<lparr>entries = [(''_documents'', JStr ''a.pdf''), (''summary._documents'', JNum 2)],
            nullProto = False\<rparr>"
  by (simp add: exampleDocumentsNull_def exampleDocuments_def render_eval flatten_eval host_eval)

subsection \<open>C4: the values of the flat mapping\<close>

text \<open>
  On \<^verbatim>\<open>{"n": 1, "b": true, "z": null}\<close> the flat mapping holds the number, the boolean and
  null; none of the three values is a string.
\<close>

theorem flattenObject_values_not_all_strings:
  "flattenObject intHost exampleLeaves [] newObject
     = Inr \<lparr>entries = [(''n'', JNum 1), (''b'', JBool True), (''z'', JNull)], nullProto = False\<rparr>
   \<and> map isString [JNum (1::int), JBool True, JNull] = [False, False, False]"
  by (simp add: exampleLeaves_def flatten_eval isString_def)

text \<open>
  C4, as the code has it. When no object entered has an own key \<^verbatim>\<open>hasOwnProperty\<close>, the
  composed paths are pairwise distinct and none of them is \<^verbatim>\<open>__proto__\<close>, every scalar leaf
  that the traversal reaches has exactly one entry in the flat mapping, and its value is
  the leaf unchanged: a number stays a number, a boolean a boolean and null stays null.
  The value becomes a string in \<^verbatim>\<open>convertToCSV\<close>, where \<^verbatim>\<open>String(value)\<close> is applied to the
  values of that mapping before quoting: 1 becomes \<^verbatim>\<open>"1"\<close>, true becomes \<^verbatim>\<open>"true"\<close> and null
  becomes \<^verbatim>\<open>"null"\<close>.
\<close>

theorem flattenObject_scalar_entry_unchanged:
  assumes "traversable (JObject kvs)"
    and "distinct (map fst (depthFirst N [] kvs))"
    and "''__proto__'' \<notin> set (map fst (depthFirst N [] kvs))"
    and "(path, JScalar p) \<in> set (visited [] kvs)"
  shows "flattenObject N (JObject kvs) [] newObject
           = Inr (assignAll newObject (depthFirst N [] kvs))
    \<and> filter (\<lambda>e. fst e = path) (entries (assignAll newObject (depthFirst N [] kvs)))
        = [(path, p)]
    \<and> convertToCSV N (JObject kvs)
        = Inr (csvOfFlat N (assignAll newObject (depthFirst N [] kvs)))
    \<and> csvField N p = [dquote] @ doubleQuotes (ToString N p) @ [dquote]
    \<and> ToString intHost (JNum 1) = ''1''
    \<and> ToString N (JBool True) = ''true''
    \<and> ToString N JNull = ''null''"
proof -
  have leaf: "(path, p) \<in> set (depthFirst N [] kvs)"
    using assms(4) by (rule visited_scalar)
  note r = flattened_entry [OF assms(1,2,3) leaf]
  have "convertToCSV N (JObject kvs)
        = Inr (csvOfFlat N (assignAll newObject (depthFirst N [] kvs)))"
    using r(1) by (simp add: convertToCSV_def)
  then show ?thesis using r(1,3) by (simp add: csvField_def host_eval)
qed

theorem flattenObject_scalar_entry_unchanged_witness:
  "flattenObject intHost exampleLeaves [] newObject
     = Inr \<lparr>entries = [(''n'', JNum 1), (''b'', JBool True), (''z'', JNull)], nullProto = False\<rparr>
   \<and> filter (\<lambda>e. fst e = ''n'') [(''n'', JNum (1::int)), (''b'', JBool True), (''z'', JNull)]
     = [(''n'', JNum 1)]
   \<and> csvField intHost (JNum 1) = [dquote] @ ''1'' @ [dquote]"
proof -
  let ?kvs = "[(''n'', JScalar (JNum (1::int))), (''b'', JScalar (JBool True)), (''z'', JScalar JNull)]"
  have t: "traversable (JObject ?kvs)"
    by (simp add: hasOwn_def)
  have df: "depthFirst intHost [] ?kvs = [(''n'', JNum 1), (''b'', JBool True), (''z'', JNull)]"
    by (simp add: childKey_def)
  have d: "distinct (map fst (depthFirst intHost [] ?kvs))"
    unfolding df by simp
  have np: "''__proto__'' \<notin> set (map fst (depthFirst intHost [] ?kvs))"
    unfolding df by simp
  have v: "(''n'', JScalar (JNum 1)) \<in> set (visited [] ?kvs)"
    by (simp add: childKey_def)
  have run: "assignAll newObject (depthFirst intHost [] ?kvs)
             = \<lparr>entries = [(''n'', JNum 1), (''b'', JBool True), (''z'', JNull)], nullProto = False\<rparr>"
    unfolding df by (simp add: assignAll_def flatten_eval)
  show ?thesis
    using flattenObject_scalar_entry_unchanged [OF t d np v] unfolding run
    by (simp add: exampleLeaves_def host_eval dquote_def)
qed

subsection \<open>C5: the two lines of the CSV\<close>

text \<open>
  C5. The CSV text is the header, a newline and the value line. The header is the paths
  joined with commas, unquoted. The value line is, for each entry in order, the string
  form of the value with every double quote doubled, between double quotes, joined with
  commas. The value \<^verbatim>\<open>He said "hi", ok\<close> becomes the field \<^verbatim>\<open>"He said ""hi"", ok"\<close>.
\<close>

theorem convertToCSV_two_lines:
  "csvOfFlat N flatData
     = joinedWith '','' (map fst (entries flatData)) @ [newline]
       @ joinedWith '',''
           (map (\<lambda>e. [dquote]
                      @ concat (map (\<lambda>c. if c = dquote then [dquote, dquote] else [c])
                                  (ToString N (snd e)))
                      @ [dquote])
              (entries flatData))
   \<and> convertToCSV N jsonData
     = (case flattenObject N jsonData [] newObject of
          Inl e \<Rightarrow> Inl e | Inr flat \<Rightarrow> Inr (csvOfFlat N flat))
   \<and> csvField N (JStr (''He said '' @ [dquote] @ ''hi'' @ [dquote] @ '', ok''))
     = [dquote] @ ''He said '' @ [dquote, dquote] @ ''hi'' @ [dquote, dquote] @ '', ok'' @ [dquote]"
proof -
  have "map (csvField N) (values_of flatData)
        = map (\<lambda>e. [dquote]
                      @ concat (map (\<lambda>c. if c = dquote then [dquote, dquote] else [c])
                                  (ToString N (snd e)))
                      @ [dquote])
              (entries flatData)"
    by (simp add: values_of_def csvField_def doubleQuotes_concat comp_def)
  then have "csvOfFlat N flatData
     = joinedWith '','' (map fst (entries flatData)) @ [newline]
       @ joinedWith '',''
           (map (\<lambda>e. [dquote]
                      @ concat (map (\<lambda>c. if c = dquote then [dquote, dquote] else [c])
                                  (ToString N (snd e)))
                      @ [dquote])
              (entries flatData))"
    by (simp add: csvOfFlat_def keys_def join_joinedWith)
  moreover have "csvField N (JStr (''He said '' @ [dquote] @ ''hi'' @ [dquote] @ '', ok''))
     = [dquote] @ ''He said '' @ [dquote, dquote] @ ''hi'' @ [dquote, dquote] @ '', ok'' @ [dquote]"
    by (simp add: csvField_def dquote_def)
  ultimately show ?thesis by (simp add: convertToCSV_def)
qed

theorem convertToCSV_two_lines_witness:
  "convertToCSV intHost exampleLeaves
     = Inr (''n,b,z'' @ [newline]
            @ [dquote] @ ''1'' @ [dquote] @ '','' @ [dquote] @ ''true'' @ [dquote] @ '',''
            @ [dquote] @ ''null'' @ [dquote])"
  using convertToCSV_two_lines
    [of intHost "\<lparr>entries = [(''n'', JNum 1), (''b'', JBool True), (''z'', JNull)],
                  nullProto = False\<rparr>" exampleLeaves]
  by (simp add: exampleLeaves_def flatten_eval host_eval dquote_def)

subsection \<open>C6: the order of keys\<close>

text \<open>
  On \<^verbatim>\<open>{"1": {"x": 1}, "2": 5}\<close>, whose keys are in own-property order, the traversal
  reaches the path 1.x before the path 2, and the flat mapping enumerates 2 first: it is
  an object, and an object enumerates its array-index keys before its other keys.
\<close>

theorem flattenObject_index_keys_reordered:
  "ownKeyOrder (map fst (ownEntries exampleNumbered))
   \<and> map fst (depthFirst intHost [] (ownEntries exampleNumbered)) = [''1.x'', ''2'']
   \<and> flattenObject intHost exampleNumbered [] newObject
     = Inr \<lparr>entries = [(''2'', JNum 5), (''1.x'', JNum 1)], nullProto = False\<rparr>"
  by (simp add: exampleNumbered_def flatten_eval comesBefore_def)

text \<open>
  C6, as the code has it. \<^verbatim>\<open>renderValue\<close> lays out the rows of an object and the items of
  an array in their own order. The flat mapping is exactly the depth-first sequence, the
  entries below a key contiguous and before those of the next sibling, whenever no object
  entered has an own key \<^verbatim>\<open>hasOwnProperty\<close>, the composed paths are pairwise distinct, the
  paths that are array indices come first in ascending order, and no path is \<^verbatim>\<open>__proto__\<close>.
\<close>

theorem flattenObject_order_preserved:
  assumes "traversable (JObject kvs)"
    and "ownKeyOrder (map fst (depthFirst N [] kvs))"
    and "''__proto__'' \<notin> set (map fst (depthFirst N [] kvs))"
  shows "flattenObject N (JObject kvs) [] newObject
           = Inr \<lparr>entries = depthFirst N [] kvs, nullProto = False\<rparr>
    \<and> renderValue N (JObject kvs)
        = TableOf (map (\<lambda>kv. (humanize (fst kv), renderValue N (snd kv))) kvs)
    \<and> renderValue N (JArray xs) = Ul (map (renderValue N) xs)"
proof -
  have "assignAll newObject (depthFirst N [] kvs)
        = newObject\<lparr>entries := entries newObject @ depthFirst N [] kvs\<rparr>"
    using assms(2,3) by (intro assignAll_in_order) (simp_all add: keys_def newObject_def)
  then have "flattenObject N (JObject kvs) [] newObject
           = Inr \<lparr>entries = depthFirst N [] kvs, nullProto = False\<rparr>"
    using flattenObject_refines [OF assms(1)] by (simp add: newObject_def)
  then show ?thesis by (simp add: renderRows_map renderItems_map)
qed

theorem flattenObject_order_preserved_witness:
  "flattenObject intHost (JObject exampleOrdered) [] newObject
     = Inr \<lparr>entries = [(''7'', JNum 0), (''zeta.b'', JBool False), (''zeta.a'', JStr []),
                       (''alpha'', JNull)], nullProto = False\<rparr>
   \<and> renderValue intHost (JObject exampleOrdered)
     = TableOf [(''7'', Text ''0''),
                (''zeta'', TableOf [(''b'', Text ''No''), (''a'', Ul [])]),
                (''alpha'', Span ''N/A'')]"
proof -
  have t: "traversable (JObject exampleOrdered)"
    by (simp add: exampleOrdered_def hasOwn_def)
  have paths: "map fst (depthFirst intHost [] exampleOrdered)
               = [''7'', ''zeta.b'', ''zeta.a'', ''alpha'']"
    by (simp add: exampleOrdered_def childKey_def)
  have ord: "ownKeyOrder (map fst (depthFirst intHost [] exampleOrdered))"
    unfolding paths by (simp add: comesBefore_def arrayIndex_def digitValue_def)
  have np: "''__proto__'' \<notin> set (map fst (depthFirst intHost [] exampleOrdered))"
    unfolding paths by simp
  show ?thesis
    using flattenObject_order_preserved [OF t ord np, of "[]"]
    by (simp add: exampleOrdered_def childKey_def arrayCell_def humanize_def host_eval)
qed

subsection \<open>C7: no path occurs twice\<close>

text \<open>
  The keys of \<^verbatim>\<open>{"a.b": 1, "c": 2, "a": {"b": 3}}\<close> are distinct at each level, and the
  traversal composes the path a.b twice. The flat mapping has the path once, with the later
  value; the leaf 1 is gone.
\<close>

theorem composed_paths_collide:
  "distinctKeys exampleColliding
   \<and> map fst (depthFirst intHost [] (ownEntries exampleColliding)) = [''a.b'', ''c'', ''a.b'']
   \<and> \<not> distinct (map fst (depthFirst intHost [] (ownEntries exampleColliding)))
   \<and> flattenObject intHost exampleColliding [] newObject
     = Inr \<lparr>entries = [(''a.b'', JNum 3), (''c'', JNum 2)], nullProto = False\<rparr>"
  by (simp add: exampleColliding_def flatten_eval)

text \<open>
  C7, as the code has it. When the keys of every object entered are pairwise distinct,
  non-empty and free of dots, the paths that the traversal composes are pairwise distinct,
  under any prefix. When moreover no object entered has an own key \<^verbatim>\<open>hasOwnProperty\<close> and no
  path is \<^verbatim>\<open>__proto__\<close>, the flat mapping that \<^verbatim>\<open>flattenObject\<close> returns holds exactly the composed
  entries, each path once and none lost.
\<close>

theorem composed_paths_distinct:
  assumes "plainKeys (JObject kvs)"
    and "traversable (JObject kvs)"
    and "''__proto__'' \<notin> set (map fst (depthFirst N [] kvs))"
  shows "distinct (map fst (depthFirst N prefix kvs))
    \<and> flattenObject N (JObject kvs) [] newObject
        = Inr (assignAll newObject (depthFirst N [] kvs))
    \<and> set (entries (assignAll newObject (depthFirst N [] kvs))) = set (depthFirst N [] kvs)
    \<and> length (entries (assignAll newObject (depthFirst N [] kvs))) = length (depthFirst N [] kvs)
    \<and> distinct (keys (assignAll newObject (depthFirst N [] kvs)))"
proof -
  have keys_ok: "distinct (map fst kvs)" "plainKeysProps kvs"
    using assms(1) by simp_all
  have paths: "distinct (map fst (depthFirst N prefix kvs))" for prefix
    using keys_ok by (rule depthFirst_paths_distinct)
  have run: "flattenObject N (JObject kvs) [] newObject
        = Inr (assignAll newObject (depthFirst N [] kvs))"
    using assms(2) by (rule flattenObject_refines)
  have same: "set (entries (assignAll newObject (depthFirst N [] kvs))) = set (depthFirst N [] kvs)"
    using paths assms(3) by (rule flattened_set)
  have d: "distinct (keys (assignAll (newObject :: 'a object) (depthFirst N [] kvs)))"
    by (rule distinct_assignAll) (simp add: keys_def newObject_def)
  have "length (entries (assignAll newObject (depthFirst N [] kvs))) = length (depthFirst N [] kvs)"
    using paths same d by (rule flattened_size)
  then show ?thesis using paths run same d by simp
qed

theorem composed_paths_distinct_witness:
  "distinct (map fst (depthFirst intHost [] exampleSiblings))
   \<and> flattenObject intHost (JObject exampleSiblings) [] newObject
     = Inr \<lparr>entries = [(''a.x'', JNum 1), (''b.x'', JNum 2)], nullProto = False\<rparr>"
proof -
  have p: "plainKeys (JObject exampleSiblings)"
    by (simp add: exampleSiblings_def)
  have t: "traversable (JObject exampleSiblings)"
    by (simp add: exampleSiblings_def hasOwn_def)
  have df: "depthFirst intHost [] exampleSiblings = [(''a.x'', JNum 1), (''b.x'', JNum 2)]"
    by (simp add: exampleSiblings_def childKey_def)
  have np: "''__proto__'' \<notin> set (map fst (depthFirst intHost [] exampleSiblings))"
    unfolding df by simp
  have run: "assignAll newObject (depthFirst intHost [] exampleSiblings)
             = \<lparr>entries = [(''a.x'', JNum 1), (''b.x'', JNum 2)], nullProto = False\<rparr>"
    unfolding df by (simp add: assignAll_def flatten_eval)
  show ?thesis
    using composed_paths_distinct [OF p t np, of "[]"] unfolding run by simp
qed

subsection \<open>C8: empty inputs\<close>

text \<open>
  C8. \<^verbatim>\<open>flattenObject\<close> on the empty object returns the empty mapping, not an error, and the
  CSV of the empty mapping is the single newline between an empty header and an empty
  value line.
\<close>

theorem empty_input_empty_output:
  "flattenObject N (JObject []) [] newObject = Inr newObject
   \<and> entries (newObject :: 'n object) = []
   \<and> csvOfFlat N newObject = [newline]
   \<and> convertToCSV N (JObject []) = Inr [newline]"
  by (simp add: flattenObject_def flattenLoop.simps newObject_def csvOfFlat_def keys_def
      values_of_def join_def convertToCSV_def)

theorem empty_input_empty_output_witness:
  "convertToCSV intHost (JObject []) = Inr [newline]"
  using empty_input_empty_output [of intHost] by blast

subsection \<open>C9: scalars in the rendered tree\<close>

text \<open>
  C9. \<^verbatim>\<open>renderValue\<close> gives N/A for null, Yes for true, No for false, and for a string or a
  number its string form; as a DisplayNode each is a Scalar with that text. Arrays and
  objects apply the same function to every item and every property value, so the rule
  holds at every position of the tree.
\<close>

theorem renderValue_scalars:
  "renderValue N (JScalar JNull) = Span ''N/A''
   \<and> displayNode (renderValue N (JScalar JNull)) = Scalar ''N/A''
   \<and> displayNode (renderValue N (JScalar (JBool True))) = Scalar ''Yes''
   \<and> displayNode (renderValue N (JScalar (JBool False))) = Scalar ''No''
   \<and> displayNode (renderValue N (JScalar (JStr s))) = Scalar s
   \<and> displayNode (renderValue N (JScalar (JNum n))) = Scalar (numToString N n)
   \<and> renderValue N (JArray xs) = Ul (map (renderValue N) xs)
   \<and> renderValue N (JObject kvs)
       = TableOf (map (\<lambda>kv. (humanize (fst kv), renderValue N (snd kv))) kvs)"
  by (simp add: renderRows_map renderItems_map)

theorem renderValue_scalars_witness:
  "displayNode (renderValue intHost
      (JArray [JScalar JNull,
               JObject [(''is_x'', JScalar (JBool True)), (''n'', JScalar (JNum 12))]]))
   = ListNode [Scalar ''N/A'', TableNode [(''is x'', Scalar ''Yes''), (''n'', Scalar ''12'')]]"
  using renderValue_scalars [of intHost]
  by (simp add: humanize_def host_eval)

subsection \<open>C10: a falsy root\<close>

text \<open>
  C10. \<^verbatim>\<open>ResultsTable\<close> answers every falsy \<^verbatim>\<open>data\<close> with the paragraph "No data to display":
  undefined and null, and also false, the empty string and a falsy number (0 and NaN).
  The root false is not rendered as No, which is what \<^verbatim>\<open>renderValue\<close> makes of false.
\<close>

theorem ResultsTable_falsy_root:
  assumes "\<not> truthy N d"
  shows "ResultsTable N (Some d) = NoData
    \<and> ResultsTable N None = NoData
    \<and> ResultsTable N (Some (JScalar JNull)) = NoData
    \<and> ResultsTable N (Some (JScalar (JBool False))) = NoData
    \<and> ResultsTable N (Some (JScalar (JStr []))) = NoData
    \<and> renderValue N (JScalar (JBool False)) = Text ''No''"
  using assms by (simp add: ResultsTable_def)

theorem ResultsTable_falsy_root_witness:
  "ResultsTable intHost (Some (JScalar (JNum 0))) = NoData
   \<and> ResultsTable intHost (Some (JScalar (JBool False))) = NoData"
proof -
  have f: "\<not> truthy intHost (JScalar (JNum 0))" by (simp add: intHost_def)
  show ?thesis using ResultsTable_falsy_root [OF f] by simp
qed

section \<open>Two keys the accumulator treats specially\<close>

text \<open>
  An object with an own key \<^verbatim>\<open>hasOwnProperty\<close> makes the call on line 108 throw, and with it
  \<^verbatim>\<open>flattenObject\<close> and \<^verbatim>\<open>convertToCSV\<close>.
\<close>

theorem flattenObject_shadowed_hasOwnProperty:
  assumes "hasOwn kvs ''hasOwnProperty''"
  shows "flattenObject N (JObject kvs) prefix res = Inl TypeError
    \<and> convertToCSV N (JObject kvs) = Inl TypeError"
proof (cases kvs)
  case Nil
  then show ?thesis using assms by (simp add: hasOwn_def)
next
  case (Cons kv rest)
  obtain key val where "kv = (key, val)" by (cases kv)
  then show ?thesis
    using assms Cons
    by (simp add: convertToCSV_def flattenObject_def flattenLoop.simps hasOwnProperty_def)
qed

theorem flattenObject_shadowed_hasOwnProperty_witness:
  "convertToCSV intHost exampleShadowed = Inl TypeError"
proof -
  have h: "hasOwn [(''name'', JScalar (JStr ''t'')), (''hasOwnProperty'', JScalar (JBool True))]
             ''hasOwnProperty''"
    by (simp add: hasOwn_def)
  show ?thesis
    using flattenObject_shadowed_hasOwnProperty [OF h, of intHost "[]" newObject]
    by (simp add: exampleShadowed_def)
qed

text \<open>
  A string, number or boolean assigned to the path \<^verbatim>\<open>__proto__\<close> of a fresh accumulator
  leaves it as it was: a scalar leaf or an array under the top-level key \<^verbatim>\<open>__proto__\<close> has no
  entry in the flat mapping.
\<close>

theorem flattenObject_drops_proto_key:
  assumes "p \<noteq> JNull"
  shows "flattenObject N (JObject [(''__proto__'', JScalar p)]) [] newObject = Inr newObject
    \<and> flattenObject N (JObject [(''__proto__'', JArray xs)]) [] newObject = Inr newObject
    \<and> convertToCSV N (JObject [(''__proto__'', JArray xs)]) = Inr [newline]"
  using assms
  by (simp add: convertToCSV_def flattenObject_def flattenLoop.simps hasOwnProperty_def hasOwn_def
      childKey_def assign_def newObject_def csvOfFlat_def keys_def values_of_def join_def)

theorem flattenObject_drops_proto_key_witness:
  "flattenObject intHost (JObject [(''__proto__'', JScalar (JNum 4))]) [] newObject
     = Inr newObject"
proof -
  have n: "JNum (4::int) \<noteq> JNull" by simp
  show ?thesis using flattenObject_drops_proto_key [OF n, of intHost] by simp
qed

end
